theory Spec2Isabelle
  imports Complex_Main "HOL-Library.Word"
begin

section \<open>Mini NMS: the probe (mini\_nms.ino)\<close>

text \<open>
  The probe is a single cooperative loop over global state. The model passes that state
  explicitly. Every reading of the environment (the clock \<open>millis()\<close>, the Wi-Fi status,
  the outcome of a ping round, a button, an inbound datagram) is an argument of the
  function that reads it. \<open>uint32_t\<close> and \<open>uint8_t\<close> are words, so that \<open>++\<close> and
  \<open>-\<close> wrap as on the device. A C \<open>float\<close> is modelled by a real number: the
  properties below only copy such values, compare them with the sentinel \<open>-1\<close> and
  average exact small constants.
\<close>

type_synonym u8 = "8 word"
type_synonym u32 = "32 word"
type_synonym float = real

subsection \<open>Data\<close>

record Target =
  name :: string
  host :: string
  intervalMs :: u32
  lastCheckMs :: u32
  consecOk :: u8
  consecFail :: u8
  isDown :: bool
  lastAvgRtt :: float
  lastChangeMs :: u32
  downStartMs :: u32

definition MAX_TGT :: nat where
  "MAX_TGT = 12"

definition FAIL_TH :: u8 where
  "FAIL_TH = 3"

definition REC_TH :: u8 where
  "REC_TH = 2"

definition PING_TRY :: nat where
  "PING_TRY = 4"

definition BUZZER_ENABLE :: bool where
  "BUZZER_ENABLE = True"

definition ALARM_MAX_MS :: u32 where
  "ALARM_MAX_MS = 60000"

text \<open>The calls made on the speaker, in order: the alarm sink is an opaque log.\<close>

datatype speaker_call = SpkBegin | SpkStop | SpkSetVolume nat | SpkTone nat nat

record alarm =
  alarmActive :: bool
  alarmStartMs :: u32
  alarmNextMs :: u32
  alarmStep :: int
  speaker :: "speaker_call list"

subsection \<open>Alarm scheduler\<close>

definition stopAlarm :: "alarm \<Rightarrow> alarm" where
  "stopAlarm a = a\<lparr>alarmActive := False, speaker := speaker a @ [SpkStop]\<rparr>"

text \<open>
  \<open>alarmTick now btn a\<close>: \<open>now\<close> is the value \<open>millis()\<close> returns, \<open>btn\<close> the value of
  \<open>M5.BtnA.wasPressed() || M5.BtnB.wasPressed()\<close>.
\<close>

definition alarmTick :: "u32 \<Rightarrow> bool \<Rightarrow> alarm \<Rightarrow> alarm" where
  "alarmTick now btn a =
     (if \<not> alarmActive a then a
      else if now - alarmStartMs a \<ge> ALARM_MAX_MS then stopAlarm a
      else if btn then stopAlarm a
      else if now \<ge> alarmNextMs a then
        (let a1 = a\<lparr>speaker := speaker a @ [SpkSetVolume 255]\<rparr> in
         if alarmStep a1 = 0 then
           a1\<lparr>speaker := speaker a1 @ [SpkTone 650 180], alarmNextMs := now + 300, alarmStep := 1\<rparr>
         else if alarmStep a1 = 1 then
           a1\<lparr>speaker := speaker a1 @ [SpkTone 650 180], alarmNextMs := now + 300, alarmStep := 2\<rparr>
         else
           a1\<lparr>speaker := speaker a1 @ [SpkTone 650 220], alarmNextMs := now + 1000, alarmStep := 0\<rparr>)
      else a)"

text \<open>\<open>beepDown now a\<close>: \<open>now\<close> is the value of the call of \<open>millis()\<close> inside \<open>beepDown\<close>.\<close>

definition beepDown :: "u32 \<Rightarrow> alarm \<Rightarrow> alarm" where
  "beepDown now a =
     (if \<not> BUZZER_ENABLE then a
      else a\<lparr>alarmActive := True, alarmStartMs := now, alarmNextMs := 0, alarmStep := 0\<rparr>)"

definition beepUp :: "alarm \<Rightarrow> alarm" where
  "beepUp a =
     (if \<not> BUZZER_ENABLE then a
      else (let a1 = stopAlarm a in
            a1\<lparr>speaker := speaker a1 @ [SpkSetVolume 230, SpkTone 1500 160]\<rparr>))"

subsection \<open>Health checker\<close>

text \<open>
  The environment of one call of \<open>checkOne\<close>: the Wi-Fi status, the outcome of each ping
  round (\<open>None\<close> when \<open>Ping.ping\<close> returns false, \<open>Some ms\<close> when it returns true and
  \<open>Ping.averageTime()\<close> is \<open>ms\<close>), and the two clock readings a transition makes (in
  \<open>logTransition\<close> and in \<open>beepDown\<close>).
\<close>

record check_env =
  wifiConnected :: bool
  pingRound :: "nat \<Rightarrow> float option"
  nowTransition :: u32
  nowAlarm :: u32

definition logTransition :: "bool \<Rightarrow> check_env \<Rightarrow> Target \<times> alarm \<Rightarrow> Target \<times> alarm" where
  "logTransition toDown env ta =
     (case ta of (t, a) \<Rightarrow>
        (let t1 = t\<lparr>lastChangeMs := nowTransition env\<rparr> in
         if toDown then (t1\<lparr>downStartMs := lastChangeMs t1\<rparr>, beepDown (nowAlarm env) a)
         else (t1\<lparr>downStartMs := 0\<rparr>, beepUp a)))"

text \<open>The loop of \<open>icmpAvgMs\<close>: rounds \<open>i, i+1, ..\<close> below \<open>PING_TRY\<close>, on the pair of \<open>sum\<close> and \<open>ok\<close>.\<close>

function pingRounds :: "(nat \<Rightarrow> float option) \<Rightarrow> nat \<Rightarrow> float \<times> int \<Rightarrow> float \<times> int" where
  "pingRounds ping i acc =
     (if i < PING_TRY then
        pingRounds ping (i + 1)
          (case ping i of
             Some ms \<Rightarrow> (fst acc + ms, snd acc + 1)
           | None \<Rightarrow> acc)
      else acc)"
  by pat_completeness auto
termination
  by (relation "measure (\<lambda>(ping, i, acc). PING_TRY - i)") auto

declare pingRounds.simps [simp del]

definition icmpAvgMs :: "(nat \<Rightarrow> float option) \<Rightarrow> bool \<times> float" where
  "icmpAvgMs ping =
     (case pingRounds ping 0 (0, 0) of (sm, ok) \<Rightarrow>
        if ok > 0 then (True, sm / real_of_int ok) else (False, -1))"

definition checkOne :: "check_env \<Rightarrow> Target \<times> alarm \<Rightarrow> Target \<times> alarm" where
  "checkOne env ta =
     (case ta of (t, a) \<Rightarrow>
        (case (if wifiConnected env then icmpAvgMs (pingRound env) else (False, -1)) of
           (up, avg) \<Rightarrow>
             (let t1 = t\<lparr>lastAvgRtt := (if up then avg else -1)\<rparr> in
              if up then
                (let t2 = t1\<lparr>consecOk := consecOk t1 + 1, consecFail := 0\<rparr> in
                 if isDown t2 \<and> consecOk t2 \<ge> REC_TH
                 then logTransition False env (t2\<lparr>isDown := False\<rparr>, a)
                 else (t2, a))
              else
                (let t2 = t1\<lparr>consecFail := consecFail t1 + 1, consecOk := 0\<rparr> in
                 if \<not> isDown t2 \<and> consecFail t2 \<ge> FAIL_TH
                 then logTransition True env (t2\<lparr>isDown := True\<rparr>, a)
                 else (t2, a)))))"


subsection \<open>Target registry\<close>

text \<open>
  The array \<open>tgts\<close> has \<open>MAX_TGT\<close> slots, of which the first \<open>N_TGT\<close> are in use; the
  slots beyond keep whatever was last written there. A C string is the list of its
  characters before the terminating NUL.
\<close>

record registry =
  tgts :: "Target list"
  N_TGT :: nat

text \<open>A slot of the global array before anything is stored in it.\<close>

definition emptySlot :: Target where
  "emptySlot = \<lparr>name = [], host = [], intervalMs = 0, lastCheckMs = 0, consecOk = 0,
     consecFail = 0, isDown = False, lastAvgRtt = -1, lastChangeMs = 0, downStartMs = 0\<rparr>"

definition initialRegistry :: registry where
  "initialRegistry = \<lparr>tgts = replicate MAX_TGT emptySlot, N_TGT = 0\<rparr>"

definition addDefaultTargets :: "registry \<Rightarrow> registry" where
  "addDefaultTargets reg =
     (let ts0 = tgts reg;
          ts1 = ts0[0 := (ts0 ! 0)\<lparr>name := ''zabbix'', host := ''192.168.11.200'', intervalMs := 5000\<rparr>];
          ts2 = ts1[1 := (ts1 ! 1)\<lparr>name := ''DNS1'', host := ''8.8.8.8'', intervalMs := 7000\<rparr>];
          ts3 = ts2[2 := (ts2 ! 2)\<lparr>name := ''DNS2'', host := ''1.1.1.1'', intervalMs := 7000\<rparr>]
      in reg\<lparr>tgts := ts3, N_TGT := 3\<rparr>)"

function findFrom :: "registry \<Rightarrow> string \<Rightarrow> nat \<Rightarrow> nat option" where
  "findFrom reg nm i =
     (if i < N_TGT reg then
        (if name (tgts reg ! i) = nm then Some i else findFrom reg nm (i + 1))
      else None)"
  by pat_completeness auto
termination
  by (relation "measure (\<lambda>(reg, nm, i). N_TGT reg - i)") auto

declare findFrom.simps [simp del]

text \<open>\<open>findByName\<close> returns the index, or \<open>None\<close> where the source returns \<open>-1\<close>.\<close>

definition findByName :: "registry \<Rightarrow> string \<Rightarrow> nat option" where
  "findByName reg nm = findFrom reg nm 0"

definition addTarget :: "string \<Rightarrow> string \<Rightarrow> u32 \<Rightarrow> registry \<Rightarrow> bool \<times> registry" where
  "addTarget nm hst itvl reg =
     (if N_TGT reg \<ge> MAX_TGT then (False, reg)
      else
        (let n = N_TGT reg;
             t = (tgts reg ! n)\<lparr>name := take 15 nm, host := take 47 hst, intervalMs := itvl,
                   lastCheckMs := 0, consecOk := 0, consecFail := 0, isDown := False,
                   lastAvgRtt := -1\<rparr>
         in (True, reg\<lparr>tgts := (tgts reg)[n := t], N_TGT := n + 1\<rparr>)))"

text \<open>The compaction loop of \<open>delTargetByName\<close>: \<open>tgts[i] = tgts[i+1]\<close> for \<open>i < n - 1\<close>.\<close>

function shiftDown :: "Target list \<Rightarrow> nat \<Rightarrow> nat \<Rightarrow> Target list" where
  "shiftDown ts i n =
     (if i + 1 < n then shiftDown (ts[i := ts ! (i + 1)]) (i + 1) n else ts)"
  by pat_completeness auto
termination
  by (relation "measure (\<lambda>(ts, i, n). n - i)") auto

declare shiftDown.simps [simp del]

definition delTargetByName :: "string \<Rightarrow> registry \<Rightarrow> bool \<times> registry" where
  "delTargetByName nm reg =
     (case findByName reg nm of
        None \<Rightarrow> (False, reg)
      | Some idx \<Rightarrow>
          (True, reg\<lparr>tgts := shiftDown (tgts reg) idx (N_TGT reg), N_TGT := N_TGT reg - 1\<rparr>))"

definition setIntervalByName :: "string \<Rightarrow> u32 \<Rightarrow> registry \<Rightarrow> bool \<times> registry" where
  "setIntervalByName nm itvl reg =
     (case findByName reg nm of
        None \<Rightarrow> (False, reg)
      | Some idx \<Rightarrow>
          (True, reg\<lparr>tgts := (tgts reg)[idx := (tgts reg ! idx)\<lparr>intervalMs := itvl\<rparr>]\<rparr>))"

subsection \<open>Command codec\<close>

text \<open>
  A command datagram as \<open>handleCommandUDP\<close> sees it through ArduinoJson. A member read
  with \<open>doc[key] | dflt\<close> is \<open>Some v\<close> when the member holds a value of the type of
  \<open>dflt\<close> (a string for \<open>cmd\<close>, \<open>name\<close> and \<open>host\<close>, a C \<open>int\<close> for \<open>itvl\<close>), and
  \<open>None\<close> when it is absent or of another type, in which case the read yields \<open>dflt\<close>.
\<close>

record cmd_doc =
  cmdMember :: "string option"
  nameMember :: "string option"
  hostMember :: "string option"
  itvlMember :: "int option"

text \<open>
  \<open>NoPacket\<close>: \<open>parsePacket\<close> returned 0 or \<open>read\<close> nothing;
  \<open>BadJson\<close>: \<open>deserializeJson\<close> reported an error.
\<close>

datatype cmd_packet = NoPacket | BadJson | CmdDoc cmd_doc

definition orDefault :: "'a option \<Rightarrow> 'a \<Rightarrow> 'a" where
  "orDefault m dflt = (case m of Some v \<Rightarrow> v | None \<Rightarrow> dflt)"

definition handleCommandUDP :: "cmd_packet \<Rightarrow> registry \<Rightarrow> registry" where
  "handleCommandUDP pkt reg =
     (case pkt of
        NoPacket \<Rightarrow> reg
      | BadJson \<Rightarrow> reg
      | CmdDoc doc \<Rightarrow>
          (let cmd = orDefault (cmdMember doc) [];
               nm = orDefault (nameMember doc) []
           in if cmd = ''add'' then
                (let hst = orDefault (hostMember doc) [];
                     itvl = (word_of_int (orDefault (itvlMember doc) 6000) :: u32)
                 in if nm \<noteq> [] \<and> hst \<noteq> [] then snd (addTarget nm hst itvl reg) else reg)
              else if cmd = ''del'' then
                (if nm \<noteq> [] then snd (delTargetByName nm reg) else reg)
              else if cmd = ''set'' then
                (let itvl = (word_of_int (orDefault (itvlMember doc) 0) :: u32)
                 in if nm \<noteq> [] \<and> itvl > 0 then snd (setIntervalByName nm itvl reg) else reg)
              else reg))"

subsection \<open>The scheduler loop\<close>

text \<open>
  The pass of \<open>loop()\<close> over the targets. \<open>checkSlot\<close> is the body of its loop: a
  target whose interval has elapsed gets \<open>lastCheckMs = now\<close> and is checked, in the
  environment \<open>env\<close>. \<open>runChecks\<close> is the loop, from slot \<open>i\<close> on.
\<close>

definition checkSlot :: "nat \<Rightarrow> u32 \<Rightarrow> check_env \<Rightarrow> registry \<times> alarm \<Rightarrow> registry \<times> alarm" where
  "checkSlot i now env ra =
     (case ra of (reg, a) \<Rightarrow>
        (let t = tgts reg ! i in
         if now - lastCheckMs t \<ge> intervalMs t then
           (case checkOne env (t\<lparr>lastCheckMs := now\<rparr>, a) of
              (t', a') \<Rightarrow> (reg\<lparr>tgts := (tgts reg)[i := t']\<rparr>, a'))
         else (reg, a)))"

function runChecks :: "u32 \<Rightarrow> (nat \<Rightarrow> check_env) \<Rightarrow> nat \<Rightarrow> registry \<times> alarm \<Rightarrow> registry \<times> alarm" where
  "runChecks now envs i ra =
     (if i < N_TGT (fst ra) then runChecks now envs (i + 1) (checkSlot i now (envs i) ra)
      else ra)"
  by pat_completeness auto
termination
  by (relation "measure (\<lambda>(now, envs, i, ra). N_TGT (fst ra) - i)")
    (auto simp: checkSlot_def Let_def split: prod.splits)

declare runChecks.simps [simp del]

text \<open>
  One iteration of \<open>loop()\<close>, on the registry and the alarm. Drawing, the Wi-Fi
  reconnection and the telemetry (which reads the state and changes none of it)
  are left out.
\<close>

record loop_env =
  btnA :: bool
  btnB :: bool
  nowTick :: u32
  cmdPacket :: cmd_packet
  nowChecks :: u32
  checkEnvs :: "nat \<Rightarrow> check_env"

definition loopBody :: "loop_env \<Rightarrow> registry \<times> alarm \<Rightarrow> registry \<times> alarm" where
  "loopBody e ra =
     (case ra of (reg, a) \<Rightarrow>
        (let a1 = alarmTick (nowTick e) (btnA e \<or> btnB e) a;
             a2 = (if btnA e \<and> alarmActive a1 then stopAlarm a1 else a1);
             a3 = (if btnB e then stopAlarm a2 else a2);
             reg1 = handleCommandUDP (cmdPacket e) reg
         in runChecks (nowChecks e) (checkEnvs e) 0 (reg1, a3)))"

text \<open>The alarm after \<open>setup()\<close>, which starts the speaker at \<open>BUZZER_VOLUME = 255\<close>.\<close>

definition initialAlarm :: alarm where
  "initialAlarm = \<lparr>alarmActive = False, alarmStartMs = 0, alarmNextMs = 0, alarmStep = 0,
     speaker = [SpkBegin, SpkSetVolume 255]\<rparr>"

text \<open>
  The states the probe passes through: the state after \<open>setup()\<close>, and the state after
  each of the steps \<open>loop()\<close> is made of (an alarm tick, a button that stops the alarm,
  a command, the check of a target that is due).
\<close>

inductive reachable :: "registry \<times> alarm \<Rightarrow> bool" where
  boot: "reachable (addDefaultTargets initialRegistry, initialAlarm)"
| tick: "reachable (reg, a) \<Longrightarrow> reachable (reg, alarmTick now btn a)"
| button: "reachable (reg, a) \<Longrightarrow> reachable (reg, stopAlarm a)"
| command: "reachable (reg, a) \<Longrightarrow> reachable (handleCommandUDP pkt reg, a)"
| check: "reachable ra \<Longrightarrow> i < N_TGT (fst ra) \<Longrightarrow> reachable (checkSlot i now env ra)"

text \<open>Ticks of the alarm during which no button is pressed, at the given clock readings.\<close>

fun alarmTicks :: "u32 list \<Rightarrow> alarm \<Rightarrow> alarm" where
  "alarmTicks [] a = a"
| "alarmTicks (now # nows) a = alarmTicks nows (alarmTick now False a)"

subsection \<open>Telemetry codec\<close>

text \<open>
  The JSON document \<open>sendTelemetryUDP\<close> builds, as a value. \<open>needBytes\<close> is what
  \<open>measureJson\<close> returns for it, \<open>mallocOk\<close> whether \<open>malloc\<close> returned a buffer,
  \<open>nowDoc\<close> and \<open>nowItem i\<close> the clock readings stored in \<open>ts\<close>. The result is the list
  of datagrams sent, each with its destination. The static capacity of the document
  (2048 bytes, for at most \<open>MAX_TGT\<close> items) is taken to suffice.
\<close>

record telem_item =
  itemName :: string
  itemHost :: string
  itemDown :: int
  itemRtt :: float

record telem_doc =
  docTs :: u32
  docItems :: "telem_item list"

datatype destination = SubnetBroadcast | FullBroadcast

record telem_env =
  telConnected :: bool
  nowDoc :: u32
  needBytes :: nat
  mallocOk :: bool
  nowItem :: "nat \<Rightarrow> u32"

definition telemItem :: "Target \<Rightarrow> telem_item" where
  "telemItem t = \<lparr>itemName = name t, itemHost = host t,
     itemDown = (if isDown t then 1 else 0), itemRtt = lastAvgRtt t\<rparr>"

definition sendTelemetryUDP :: "telem_env \<Rightarrow> registry \<Rightarrow> (destination \<times> telem_doc) list" where
  "sendTelemetryUDP e reg =
     (if \<not> telConnected e then []
      else
        (let doc = \<lparr>docTs = nowDoc e,
                    docItems = map (\<lambda>i. telemItem (tgts reg ! i)) [0..<N_TGT reg]\<rparr>
         in if needBytes e \<le> 1400 then
              (if \<not> mallocOk e then [] else [(SubnetBroadcast, doc)])
            else
              map (\<lambda>i. (FullBroadcast,
                         \<lparr>docTs = nowItem e i, docItems = [telemItem (tgts reg ! i)]\<rparr>))
                  [0..<N_TGT reg]))"

section \<open>Mini NMS: the viewer (nms\_view.pde)\<close>

text \<open>
  \<open>Item\<close> objects are shared between the old list, the hash map and the new list, so
  the model has a heap: an \<open>Item\<close> reference is an index into \<open>heap\<close>, \<open>new Item()\<close>
  appends an object. A Java \<open>String\<close> reference is \<open>None\<close> when it is \<open>null\<close>.
\<close>

record Item =
  itName :: "string option"
  itHost :: "string option"
  itDown :: bool
  itRtt :: float

record viewer =
  heap :: "Item list"
  items :: "nat list"
  lastUpdateTs :: int

definition initialViewer :: viewer where
  "initialViewer = \<lparr>heap = [], items = [], lastUpdateTs = 0\<rparr>"

definition newItem :: Item where
  "newItem = \<lparr>itName = None, itHost = None, itDown = False, itRtt = 0\<rparr>"

text \<open>What is on the screen: the objects the list \<open>items\<close> refers to, in order.\<close>

definition displayed :: "viewer \<Rightarrow> Item list" where
  "displayed v = map (\<lambda>r. heap v ! r) (items v)"

text \<open>
  An inbound datagram as \<open>readUdpNonBlocking\<close> sees it through the calls it makes on
  Processing's JSON classes. A call either returns or throws; a returned reference may
  be \<open>null\<close> (\<open>None\<close>).
  \<^item> \<open>tsRead\<close>: \<open>Some n\<close> when \<open>getLong("ts")\<close> yields \<open>n\<close>, \<open>None\<close> when
    \<open>getLong("ts", millis())\<close> falls back to its default;
  \<^item> \<open>itemsRead\<close>: the outcome of \<open>getJSONArray("items")\<close>, element \<open>i\<close> of the array
    being the outcome of \<open>getJSONObject(i)\<close>;
  \<^item> \<open>nameRead\<close>, \<open>hostRead\<close>, \<open>downRead\<close>: the outcomes of \<open>getString("name")\<close>,
    \<open>getString("host")\<close> and \<open>getInt("down")\<close>;
  \<^item> \<open>rttRead\<close>: the value of \<open>(float)o.getDouble("rtt", -1.0)\<close>, which cannot throw.
\<close>

datatype 'a outcome = Returned 'a | Threw

record rx_item =
  nameRead :: "string option outcome"
  hostRead :: "string option outcome"
  downRead :: "int outcome"
  rttRead :: float

record rx_object =
  tsRead :: "int option"
  itemsRead :: "rx_item outcome list option outcome"

text \<open>
  \<open>RxNothing\<close>: \<open>receive\<close> timed out or failed; \<open>RxUnparsable\<close>: \<open>parseJSONObject\<close>
  threw; \<open>RxNull\<close>: it returned \<open>null\<close>; \<open>RxObject\<close>: it returned an object.
\<close>

datatype rx_packet = RxNothing | RxUnparsable | RxNull | RxObject rx_object

text \<open>The hash map from the names of the displayed items to the items: a later \<open>put\<close> wins.\<close>

definition nameMap :: "Item list \<Rightarrow> nat list \<Rightarrow> (string option \<rightharpoonup> nat)" where
  "nameMap h its = foldl (\<lambda>m r. m(itName (h ! r) \<mapsto> r)) Map.empty its"

text \<open>
  The loop over the array. The result is the heap, and the list \<open>next\<close> unless an
  exception left the loop: the writes made to the heap before the exception stay.
\<close>

fun mergeItems ::
  "(string option \<rightharpoonup> nat) \<Rightarrow> rx_item outcome list \<Rightarrow> Item list \<Rightarrow> nat list
     \<Rightarrow> Item list \<times> nat list option" where
  "mergeItems m [] h nxt = (h, Some nxt)"
| "mergeItems m (Threw # es) h nxt = (h, None)"
| "mergeItems m (Returned obj # es) h nxt =
     (case nameRead obj of
        Threw \<Rightarrow> (h, None)
      | Returned nm \<Rightarrow>
     (case hostRead obj of
        Threw \<Rightarrow> (h, None)
      | Returned hst \<Rightarrow>
     (case downRead obj of
        Threw \<Rightarrow> (h, None)
      | Returned d \<Rightarrow>
          (let down = (d = 1);
               rtt = rttRead obj;
               rh = (case m nm of Some r \<Rightarrow> (r, h) | None \<Rightarrow> (length h, h @ [newItem]));
               r = fst rh;
               h1 = (snd rh)[r := \<lparr>itName = nm, itHost = hst, itDown = down, itRtt = rtt\<rparr>]
           in mergeItems m es h1 (nxt @ [r])))))"

text \<open>\<open>readUdpNonBlocking ms pkt v\<close>: \<open>ms\<close> is the value of \<open>millis()\<close>.\<close>

definition readUdpNonBlocking :: "int \<Rightarrow> rx_packet \<Rightarrow> viewer \<Rightarrow> viewer" where
  "readUdpNonBlocking ms pkt v =
     (case pkt of
        RxNothing \<Rightarrow> v
      | RxUnparsable \<Rightarrow> v
      | RxNull \<Rightarrow> v
      | RxObject jo \<Rightarrow>
          (let v1 = v\<lparr>lastUpdateTs := orDefault (tsRead jo) ms\<rparr> in
           case itemsRead jo of
             Threw \<Rightarrow> v1
           | Returned None \<Rightarrow> v1
           | Returned (Some arr) \<Rightarrow>
               (case mergeItems (nameMap (heap v1) (items v1)) arr (heap v1) [] of
                  (h, None) \<Rightarrow> v1\<lparr>heap := h\<rparr>
                | (h, Some nxt) \<Rightarrow> v1\<lparr>heap := h, items := nxt\<rparr>)))"

text \<open>
  What the viewer reads from a datagram that carries a telemetry document, when the
  two JSON libraries write and read the text faithfully: every member is read back
  with the value it was given.
\<close>

definition received :: "telem_doc \<Rightarrow> rx_packet" where
  "received doc =
     RxObject \<lparr>tsRead = Some (uint (docTs doc)),
       itemsRead = Returned (Some (map (\<lambda>it. Returned
         \<lparr>nameRead = Returned (Some (itemName it)), hostRead = Returned (Some (itemHost it)),
          downRead = Returned (itemDown it), rttRead = itemRtt it\<rparr>) (docItems doc)))\<rparr>"

text \<open>The item the viewer should display for a target.\<close>

definition itemOf :: "Target \<Rightarrow> Item" where
  "itemOf t = \<lparr>itName = Some (name t), itHost = Some (host t), itDown = isDown t,
     itRtt = lastAvgRtt t\<rparr>"

section \<open>Properties\<close>

subsection \<open>Auxiliary definitions\<close>

text \<open>Whether a check counts as a success: Wi-Fi is up and a round succeeded.\<close>

definition checkUp :: "check_env \<Rightarrow> bool" where
  "checkUp env = (wifiConnected env \<and> fst (icmpAvgMs (pingRound env)))"

text \<open>
  The invariant of the hysteresis counters of a target, and of the registry: the array
  has \<open>MAX_TGT\<close> slots, at most that many are in use, and the counters of every slot in
  use satisfy the invariant.
\<close>

definition countersOk :: "Target \<Rightarrow> bool" where
  "countersOk t =
     ((consecOk t = 0 \<or> consecFail t = 0) \<and> (\<not> isDown t \<longrightarrow> consecFail t < FAIL_TH)
      \<and> (isDown t \<longrightarrow> consecOk t < REC_TH))"

definition registryOk :: "registry \<Rightarrow> bool" where
  "registryOk reg =
     (length (tgts reg) = MAX_TGT \<and> N_TGT reg \<le> MAX_TGT
      \<and> (\<forall>i<N_TGT reg. countersOk (tgts reg ! i)))"

text \<open>Concrete environments, targets and commands for the examples below.\<close>

definition noPing :: "nat \<Rightarrow> float option" where
  "noPing i = None"


definition offlineEnv :: check_env where
  "offlineEnv = \<lparr>wifiConnected = False, pingRound = noPing, nowTransition = 15000,
     nowAlarm = 15001\<rparr>"


definition dbTarget :: Target where
  "dbTarget = emptySlot\<lparr>name := ''db'', host := ''10.0.0.2'', intervalMs := 5000\<rparr>"

definition bootState :: "registry \<times> alarm" where
  "bootState = (addDefaultTargets initialRegistry, initialAlarm)"

definition addCmd :: "string \<Rightarrow> string \<Rightarrow> cmd_packet" where
  "addCmd nm hst = CmdDoc \<lparr>cmdMember = Some ''add'', nameMember = Some nm,
     hostMember = Some hst, itvlMember = None\<rparr>"


definition fullRegistry :: registry where
  "fullRegistry = (handleCommandUDP (addCmd ''x'' ''10.0.0.9'') ^^ 9) (addDefaultTargets initialRegistry)"

definition twoFailures :: "registry \<times> alarm" where
  "twoFailures = checkSlot 0 10000 offlineEnv (checkSlot 0 5000 offlineEnv bootState)"

definition ringingAlarm :: alarm where
  "ringingAlarm = \<lparr>alarmActive = True, alarmStartMs = 1000, alarmNextMs = 2600, alarmStep = 2,
     speaker = []\<rparr>"

text \<open>
  The references of the viewer's list point into its heap. The targets in use. The
  reading of one telemetry item, and the item the viewer stores for it.
\<close>

definition viewerOk :: "viewer \<Rightarrow> bool" where
  "viewerOk v = (\<forall>r\<in>set (items v). r < length (heap v))"

definition activeTargets :: "registry \<Rightarrow> Target list" where
  "activeTargets reg = take (N_TGT reg) (tgts reg)"

definition rxOf :: "telem_item \<Rightarrow> rx_item outcome" where
  "rxOf it = Returned
         \<lparr>nameRead = Returned (Some (itemName it)), hostRead = Returned (Some (itemHost it)),
          downRead = Returned (itemDown it), rttRead = itemRtt it\<rparr>"

definition shownOf :: "telem_item \<Rightarrow> Item" where
  "shownOf it = \<lparr>itName = Some (itemName it), itHost = Some (itemHost it),
     itDown = (itemDown it = 1), itRtt = itemRtt it\<rparr>"

text \<open>
  No two entries of a datagram are written to the same displayed object: a name that
  the map knows does not occur again later in the datagram.
\<close>

fun noAlias :: "(string option \<rightharpoonup> nat) \<Rightarrow> string list \<Rightarrow> bool" where
  "noAlias m [] = True"
| "noAlias m (n # ns) = ((m (Some n) = None \<or> n \<notin> set ns) \<and> noAlias m ns)"

text \<open>Concrete telemetry, registries and datagrams for the examples below.\<close>

definition nowItemExample :: "nat \<Rightarrow> u32" where
  "nowItemExample i = 30000"

definition telemetryEnv :: "nat \<Rightarrow> telem_env" where
  "telemetryEnv need = \<lparr>telConnected = True, nowDoc = 30000, needBytes = need, mallocOk = True,
     nowItem = nowItemExample\<rparr>"

definition dupRegistry :: registry where
  "dupRegistry = handleCommandUDP (addCmd ''web'' ''10.0.0.2'')
     (handleCommandUDP (addCmd ''web'' ''10.0.0.1'') (addDefaultTargets initialRegistry))"

text \<open>
  The telemetry of the registry after \<open>setup()\<close>, and of the registry with two targets
  named \<open>web\<close>: their JSON texts have 184 and 286 characters.
\<close>

definition bootTelemetry :: telem_doc where
  "bootTelemetry = snd (hd (sendTelemetryUDP (telemetryEnv 184) (addDefaultTargets initialRegistry)))"

definition dupTelemetry :: telem_doc where
  "dupTelemetry = snd (hd (sendTelemetryUDP (telemetryEnv 286) dupRegistry))"

definition brokenPacket :: rx_packet where
  "brokenPacket = RxObject \<lparr>tsRead = Some 77777,
     itemsRead = Returned (Some [Returned \<lparr>nameRead = Returned (Some ''DNS1''),
       hostRead = Returned (Some ''10.9.9.9''), downRead = Returned 1, rttRead = -1\<rparr>, Threw])\<rparr>"

definition webA :: Target where
  "webA = emptySlot\<lparr>name := ''web'', host := ''10.0.0.1'', intervalMs := 6000\<rparr>"

definition webB :: Target where
  "webB = emptySlot\<lparr>name := ''web'', host := ''10.0.0.2'', intervalMs := 6000\<rparr>"

definition zabbixT :: Target where
  "zabbixT = emptySlot\<lparr>name := ''zabbix'', host := ''192.168.11.200'', intervalMs := 5000\<rparr>"

definition dns1T :: Target where
  "dns1T = emptySlot\<lparr>name := ''DNS1'', host := ''8.8.8.8'', intervalMs := 7000\<rparr>"

definition dns2T :: Target where
  "dns2T = emptySlot\<lparr>name := ''DNS2'', host := ''1.1.1.1'', intervalMs := 7000\<rparr>"

subsection \<open>The health checker, case by case\<close>



lemma checkOne_fail:
  "\<not> checkUp env \<Longrightarrow> checkOne env (t, a) =
     (if \<not> isDown t \<and> consecFail t + 1 \<ge> FAIL_TH
      then (t\<lparr>lastAvgRtt := -1, consecFail := consecFail t + 1, consecOk := 0, isDown := True,
              lastChangeMs := nowTransition env, downStartMs := nowTransition env\<rparr>,
            beepDown (nowAlarm env) a)
      else (t\<lparr>lastAvgRtt := -1, consecFail := consecFail t + 1, consecOk := 0\<rparr>, a))"
  by (auto simp: checkUp_def checkOne_def logTransition_def Let_def split: prod.splits)

lemma checkOne_ok:
  "checkUp env \<Longrightarrow> checkOne env (t, a) =
     (if isDown t \<and> consecOk t + 1 \<ge> REC_TH
      then (t\<lparr>lastAvgRtt := snd (icmpAvgMs (pingRound env)), consecOk := consecOk t + 1,
              consecFail := 0, isDown := False,
              lastChangeMs := nowTransition env, downStartMs := 0\<rparr>,
            beepUp a)
      else (t\<lparr>lastAvgRtt := snd (icmpAvgMs (pingRound env)), consecOk := consecOk t + 1,
              consecFail := 0\<rparr>, a))"
  by (auto simp: checkUp_def checkOne_def logTransition_def Let_def split: prod.splits)



lemma u8_below3: "(x::u8) < 3 \<Longrightarrow> \<not> 3 \<le> x + 1 \<Longrightarrow> x + 1 < 3"
  by unat_arith

lemma u8_below2: "(x::u8) < 2 \<Longrightarrow> \<not> 2 \<le> x + 1 \<Longrightarrow> x + 1 < 2"
  by unat_arith

lemma countersOk_checkOne:
  assumes "countersOk t" and "checkOne env (t\<lparr>lastCheckMs := now\<rparr>, a) = (t', a')"
  shows "countersOk t'"
proof (cases "checkUp env")
  case True
  with assms show ?thesis
    by (auto simp: checkOne_ok countersOk_def FAIL_TH_def REC_TH_def u8_below2
        split: if_splits)
next
  case False
  with assms show ?thesis
    by (auto simp: checkOne_fail countersOk_def FAIL_TH_def REC_TH_def u8_below3
        split: if_splits)
qed

subsection \<open>Lookup and compaction\<close>

lemma findFrom_Some:
  "findFrom reg nm i = Some idx \<Longrightarrow>
     i \<le> idx \<and> idx < N_TGT reg \<and> name (tgts reg ! idx) = nm
     \<and> (\<forall>j. i \<le> j \<and> j < idx \<longrightarrow> name (tgts reg ! j) \<noteq> nm)"
proof (induction reg nm i rule: findFrom.induct)
  case (1 reg nm i)
  show ?case
  proof (cases "i < N_TGT reg \<and> name (tgts reg ! i) \<noteq> nm")
    case True
    with "1.prems" have "findFrom reg nm (i + 1) = Some idx"
      by (simp add: findFrom.simps [of reg nm i])
    with "1.IH" True have IH: "i + 1 \<le> idx \<and> idx < N_TGT reg \<and> name (tgts reg ! idx) = nm
       \<and> (\<forall>j. i + 1 \<le> j \<and> j < idx \<longrightarrow> name (tgts reg ! j) \<noteq> nm)"
      by simp
    show ?thesis
    proof (intro conjI allI impI)
      fix j assume "i \<le> j \<and> j < idx"
      then show "name (tgts reg ! j) \<noteq> nm"
        using IH True by (cases "j = i") auto
    qed (use IH in auto)
  next
    case False
    with "1.prems" show ?thesis
      by (auto simp: findFrom.simps [of reg nm i] split: if_splits)
  qed
qed

lemma findByName_Some:
  "findByName reg nm = Some idx \<Longrightarrow>
     idx < N_TGT reg \<and> name (tgts reg ! idx) = nm \<and> (\<forall>j<idx. name (tgts reg ! j) \<noteq> nm)"
  using findFrom_Some [of reg nm 0 idx] by (simp add: findByName_def)





lemma length_shiftDown: "length (shiftDown ts i n) = length ts"
proof (induction ts i n rule: shiftDown.induct)
  case (1 ts i n)
  then show ?case
    by (simp add: shiftDown.simps [of ts i n])
qed

lemma nth_shiftDown:
  "n \<le> length ts \<Longrightarrow>
   shiftDown ts i n ! j = (if i \<le> j \<and> j + 1 < n then ts ! (j + 1) else ts ! j)"
proof (induction ts i n arbitrary: j rule: shiftDown.induct)
  case (1 ts i n)
  show ?case
  proof (cases "i + 1 < n")
    case True
    have "shiftDown ts i n ! j = shiftDown (ts[i := ts ! (i + 1)]) (i + 1) n ! j"
      using True by (simp add: shiftDown.simps [of ts i n])
    also have "\<dots> = (if i + 1 \<le> j \<and> j + 1 < n then (ts[i := ts ! (i + 1)]) ! (j + 1)
                      else (ts[i := ts ! (i + 1)]) ! j)"
      using "1.IH" [OF True] "1.prems" by simp
    also have "\<dots> = (if i \<le> j \<and> j + 1 < n then ts ! (j + 1) else ts ! j)"
      using True "1.prems" by (auto simp: nth_list_update)
    finally show ?thesis .
  next
    case False
    then show ?thesis
      by (auto simp: shiftDown.simps [of ts i n])
  qed
qed

subsection \<open>The registry invariant holds in every state of the probe\<close>

lemma registryOk_boot: "registryOk (addDefaultTargets initialRegistry)"
  by (auto simp: registryOk_def addDefaultTargets_def initialRegistry_def MAX_TGT_def Let_def
      countersOk_def emptySlot_def FAIL_TH_def REC_TH_def nth_list_update)

lemma registryOk_addTarget: "registryOk reg \<Longrightarrow> registryOk (snd (addTarget nm hst itvl reg))"
  by (auto simp: registryOk_def addTarget_def Let_def countersOk_def nth_list_update
      FAIL_TH_def REC_TH_def)

lemma registryOk_delTarget: "registryOk reg \<Longrightarrow> registryOk (snd (delTargetByName nm reg))"
  by (auto simp: registryOk_def delTargetByName_def length_shiftDown nth_shiftDown
      split: option.splits)

lemma registryOk_setInterval:
  assumes "registryOk reg"
  shows "registryOk (snd (setIntervalByName nm itvl reg))"
proof (cases "findByName reg nm")
  case None
  with assms show ?thesis by (simp add: setIntervalByName_def)
next
  case (Some idx)
  then have "idx < length (tgts reg)"
    using findByName_Some [of reg nm idx] assms by (simp add: registryOk_def)
  then have "countersOk ((tgts reg)[idx := (tgts reg ! idx)\<lparr>intervalMs := itvl\<rparr>] ! i)
      = countersOk (tgts reg ! i)" for i
    by (simp add: nth_list_update countersOk_def)
  with assms Some show ?thesis
    by (simp add: setIntervalByName_def registryOk_def)
qed

lemma registryOk_command: "registryOk reg \<Longrightarrow> registryOk (handleCommandUDP pkt reg)"
  by (simp add: handleCommandUDP_def Let_def registryOk_addTarget registryOk_delTarget
      registryOk_setInterval split: cmd_packet.splits)

lemma registryOk_checkSlot:
  assumes "registryOk (fst ra)" and "i < N_TGT (fst ra)"
  shows "registryOk (fst (checkSlot i now env ra))"
proof -
  obtain reg a where ra: "ra = (reg, a)" by (cases ra)
  show ?thesis
  proof (cases "intervalMs (tgts reg ! i) \<le> now - lastCheckMs (tgts reg ! i)")
    case True
    obtain t' a' where c: "checkOne env ((tgts reg ! i)\<lparr>lastCheckMs := now\<rparr>, a) = (t', a')"
      by (cases "checkOne env ((tgts reg ! i)\<lparr>lastCheckMs := now\<rparr>, a)")
    from assms ra have "countersOk (tgts reg ! i)"
      by (simp add: registryOk_def)
    then have "countersOk t'"
      using c by (rule countersOk_checkOne)
    moreover have "fst (checkSlot i now env ra) = reg\<lparr>tgts := (tgts reg)[i := t']\<rparr>"
      using True c ra by (simp add: checkSlot_def Let_def)
    ultimately show ?thesis
      using assms ra by (auto simp: registryOk_def nth_list_update)
  next
    case False
    with assms ra show ?thesis
      by (simp add: checkSlot_def Let_def)
  qed
qed

lemma reachable_registryOk: "reachable ra \<Longrightarrow> registryOk (fst ra)"
proof (induction rule: reachable.induct)
  case boot
  show ?case by (simp add: registryOk_boot)
next
  case (command reg a pkt)
  then show ?case by (simp add: registryOk_command)
next
  case (check ra i now env)
  then show ?case by (simp add: registryOk_checkSlot)
qed simp_all

text \<open>An iteration of \<open>loop()\<close> leads from a state of the probe to a state of the probe.\<close>

lemma N_TGT_checkSlot: "N_TGT (fst (checkSlot i now env ra)) = N_TGT (fst ra)"
  by (simp add: checkSlot_def Let_def split: prod.splits)

lemma reachable_runChecks: "reachable ra \<Longrightarrow> reachable (runChecks now envs i ra)"
proof (induction now envs i ra rule: runChecks.induct)
  case (1 now envs i ra)
  show ?case
  proof (cases "i < N_TGT (fst ra)")
    case True
    then have "reachable (checkSlot i now (envs i) ra)"
      using "1.prems" by (simp add: reachable.check)
    then show ?thesis
      using "1.IH" True by (simp add: runChecks.simps [of now envs i ra])
  next
    case False
    then show ?thesis
      using "1.prems" by (simp add: runChecks.simps [of now envs i ra])
  qed
qed

lemma reachable_stop_if:
  "reachable (reg, a) \<Longrightarrow> reachable (reg, if c then stopAlarm a else a)"
  by (simp add: reachable.button)

lemma reachable_loopBody: "reachable ra \<Longrightarrow> reachable (loopBody e ra)"
proof -
  assume r: "reachable ra"
  obtain reg a where ra: "ra = (reg, a)" by (cases ra)
  let ?a1 = "alarmTick (nowTick e) (btnA e \<or> btnB e) a"
  let ?a2 = "if btnA e \<and> alarmActive ?a1 then stopAlarm ?a1 else ?a1"
  let ?a3 = "if btnB e then stopAlarm ?a2 else ?a2"
  from r ra have "reachable (reg, ?a1)" by (simp add: reachable.tick)
  then have "reachable (reg, ?a2)" by (rule reachable_stop_if)
  then have "reachable (reg, ?a3)" by (rule reachable_stop_if)
  then have "reachable (runChecks (nowChecks e) (checkEnvs e) 0
      (handleCommandUDP (cmdPacket e) reg, ?a3))"
    by (intro reachable_runChecks reachable.command)
  then show ?thesis
    unfolding loopBody_def ra by (simp only: Let_def prod.case)
qed

subsection \<open>Evaluating the examples\<close>



lemma offlineEnv_simps:
  "wifiConnected offlineEnv = False" "nowTransition offlineEnv = 15000"
  "nowAlarm offlineEnv = 15001"
  by (simp_all add: offlineEnv_def)


lemma checkUp_offline: "\<not> checkUp offlineEnv"
  by (simp add: checkUp_def offlineEnv_simps)




lemma two_offline:
  "checkOne offlineEnv (checkOne offlineEnv (dbTarget, initialAlarm))
   = (dbTarget\<lparr>consecFail := 2\<rparr>, initialAlarm)"
  by (simp add: checkOne_fail checkUp_offline dbTarget_def emptySlot_def FAIL_TH_def
      word_le_nat_alt)

lemma third_offline:
  "checkOne offlineEnv (dbTarget\<lparr>consecFail := 2\<rparr>, a)
   = (dbTarget\<lparr>consecFail := 3, isDown := True, lastChangeMs := 15000, downStartMs := 15000\<rparr>,
      beepDown 15001 a)"
  by (simp add: checkOne_fail checkUp_offline dbTarget_def emptySlot_def FAIL_TH_def
      offlineEnv_simps)

lemma three_offline:
  "checkOne offlineEnv (checkOne offlineEnv (checkOne offlineEnv (dbTarget, initialAlarm)))
   = (dbTarget\<lparr>consecFail := 3, isDown := True, lastChangeMs := 15000, downStartMs := 15000\<rparr>,
      beepDown 15001 initialAlarm)"
  by (simp only: two_offline third_offline)

subsection \<open>The viewer's merge loop\<close>

lemma noAlias_distinct: "distinct ns \<Longrightarrow> noAlias m ns"
  by (induction ns) auto

lemma noAlias_fresh: "\<forall>n\<in>set ns. m (Some n) = None \<Longrightarrow> noAlias m ns"
  by (induction ns) auto

lemma mergeItems_step:
  "mergeItems m (rxOf it # es) h nxt =
     (case m (Some (itemName it)) of
        Some r \<Rightarrow> mergeItems m es (h[r := shownOf it]) (nxt @ [r])
      | None \<Rightarrow> mergeItems m es (h @ [shownOf it]) (nxt @ [length h]))"
  by (simp add: rxOf_def shownOf_def Let_def split: option.splits)

lemma mergeItems_wellformed:
  assumes "\<forall>n r. m n = Some r \<longrightarrow> r < length h \<and> itName (h ! r) = n"
    and "\<forall>r\<in>set nxt. r < length h"
    and "\<forall>r\<in>set nxt. \<forall>it\<in>set its. m (Some (itemName it)) \<noteq> Some r"
    and "noAlias m (map itemName its)"
  shows "\<exists>h' nxt'. mergeItems m (map rxOf its) h nxt = (h', Some nxt')
    \<and> map ((!) h') nxt' = map ((!) h) nxt @ map shownOf its"
  using assms
proof (induction its arbitrary: h nxt)
  case Nil
  then show ?case by simp
next
  case (Cons it its)
  let ?n = "Some (itemName it)"
  show ?case
  proof (cases "m ?n")
    case None
    let ?h1 = "h @ [shownOf it]"
    let ?nx = "nxt @ [length h]"
    have 1: "\<forall>n r. m n = Some r \<longrightarrow> r < length ?h1 \<and> itName (?h1 ! r) = n"
    proof (intro allI impI)
      fix n' r' assume "m n' = Some r'"
      with Cons.prems(1) have "r' < length h" "itName (h ! r') = n'" by auto
      then show "r' < length ?h1 \<and> itName (?h1 ! r') = n'"
        by (simp add: nth_append)
    qed
    have 2: "\<forall>r\<in>set ?nx. r < length ?h1"
      using Cons.prems(2) by auto
    have 3: "\<forall>r\<in>set ?nx. \<forall>it\<in>set its. m (Some (itemName it)) \<noteq> Some r"
      using Cons.prems(1,3) by fastforce
    have 4: "noAlias m (map itemName its)"
      using Cons.prems(4) by simp
    from Cons.IH [OF 1 2 3 4] obtain h' nxt' where
      r: "mergeItems m (map rxOf its) ?h1 ?nx = (h', Some nxt')"
         "map ((!) h') nxt' = map ((!) ?h1) ?nx @ map shownOf its"
      by blast
    have "map ((!) ?h1) nxt = map ((!) h) nxt"
      using Cons.prems(2) by (simp add: nth_append)
    with r None show ?thesis
      by (simp add: mergeItems_step)
  next
    case (Some r)
    let ?h1 = "h[r := shownOf it]"
    let ?nx = "nxt @ [r]"
    from Some Cons.prems(1) have rl: "r < length h" and rn: "itName (h ! r) = ?n"
      by auto
    have 1: "\<forall>n r. m n = Some r \<longrightarrow> r < length ?h1 \<and> itName (?h1 ! r) = n"
    proof (intro allI impI)
      fix n' r' assume a: "m n' = Some r'"
      with Cons.prems(1) have b: "r' < length h" "itName (h ! r') = n'" by auto
      show "r' < length ?h1 \<and> itName (?h1 ! r') = n'"
      proof (cases "r' = r")
        case True
        with b rn show ?thesis by (simp add: shownOf_def)
      next
        case False
        with b show ?thesis by simp
      qed
    qed
    have 2: "\<forall>r\<in>set ?nx. r < length ?h1"
      using Cons.prems(2) rl by auto
    have notin: "itemName it \<notin> set (map itemName its)"
      using Cons.prems(4) Some by simp
    have 3: "\<forall>r'\<in>set ?nx. \<forall>it'\<in>set its. m (Some (itemName it')) \<noteq> Some r'"
    proof (intro ballI)
      fix r' it' assume a: "r' \<in> set ?nx" "it' \<in> set its"
      show "m (Some (itemName it')) \<noteq> Some r'"
      proof (cases "r' = r")
        case True
        show ?thesis
        proof
          assume "m (Some (itemName it')) = Some r'"
          with True Cons.prems(1) have "itName (h ! r) = Some (itemName it')" by auto
          with rn have "itemName it' = itemName it" by simp
          moreover have "itemName it' \<in> set (map itemName its)"
            using a(2) by simp
          ultimately show False
            using notin by simp
        qed
      next
        case False
        with a Cons.prems(3) show ?thesis by auto
      qed
    qed
    have 4: "noAlias m (map itemName its)"
      using Cons.prems(4) by simp
    from Cons.IH [OF 1 2 3 4] obtain h' nxt' where
      res: "mergeItems m (map rxOf its) ?h1 ?nx = (h', Some nxt')"
         "map ((!) h') nxt' = map ((!) ?h1) ?nx @ map shownOf its"
      by blast
    have "r \<notin> set nxt"
      using Cons.prems(3) Some by auto
    then have "?h1 ! x = h ! x" if "x \<in> set nxt" for x
      using that by (cases "x = r") simp_all
    then have "map ((!) ?h1) nxt = map ((!) h) nxt"
      by simp
    with res Some rl show ?thesis
      by (simp add: mergeItems_step)
  qed
qed

lemma nameMap_foldl:
  "foldl (\<lambda>m r. m(itName (h ! r) \<mapsto> r)) m0 its n = Some r \<Longrightarrow>
   (r \<in> set its \<and> itName (h ! r) = n) \<or> m0 n = Some r"
proof (induction its arbitrary: m0)
  case Nil
  then show ?case by simp
next
  case (Cons x its)
  from Cons.prems have "foldl (\<lambda>m r. m(itName (h ! r) \<mapsto> r)) (m0(itName (h ! x) \<mapsto> x)) its n = Some r"
    by (simp only: foldl_Cons)
  from Cons.IH [OF this] show ?case
    by (auto split: if_splits)
qed

lemma nameMap_Some:
  "nameMap h its n = Some r \<Longrightarrow> r \<in> set its \<and> itName (h ! r) = n"
  using nameMap_foldl [of h Map.empty its n r] by (simp add: nameMap_def)

lemma map_nth_upt_take:
  "n \<le> length xs \<Longrightarrow> map (\<lambda>i. f (xs ! i)) [0..<n] = map f (take n xs)"
  by (rule nth_equalityI) simp_all

lemma shownOf_telemItem: "shownOf (telemItem t) = itemOf t"
  by (simp add: shownOf_def telemItem_def itemOf_def)

lemma received_rxOf:
  "received doc = RxObject \<lparr>tsRead = Some (uint (docTs doc)),
       itemsRead = Returned (Some (map rxOf (docItems doc)))\<rparr>"
  by (simp add: received_def rxOf_def)

lemma read_received:
  assumes "viewerOk v"
    and "noAlias (nameMap (heap v) (items v)) (map itemName (docItems doc))"
  shows "displayed (readUdpNonBlocking ms (received doc) v) = map shownOf (docItems doc)
    \<and> lastUpdateTs (readUdpNonBlocking ms (received doc) v) = uint (docTs doc)"
proof -
  let ?m = "nameMap (heap v) (items v)"
  have 1: "\<forall>n r. ?m n = Some r \<longrightarrow> r < length (heap v) \<and> itName (heap v ! r) = n"
    using nameMap_Some [of "heap v" "items v"] assms(1) by (auto simp: viewerOk_def)
  have "\<exists>h' nxt'. mergeItems ?m (map rxOf (docItems doc)) (heap v) [] = (h', Some nxt')
    \<and> map ((!) h') nxt' = map ((!) (heap v)) [] @ map shownOf (docItems doc)"
    by (rule mergeItems_wellformed [OF 1 _ _ assms(2)]) simp_all
  then obtain h' nxt' where
    "mergeItems ?m (map rxOf (docItems doc)) (heap v) [] = (h', Some nxt')"
    "map ((!) h') nxt' = map shownOf (docItems doc)"
    by auto
  then show ?thesis
    by (simp add: readUdpNonBlocking_def received_rxOf orDefault_def Let_def displayed_def)
qed

lemma mergeItems_refs:
  assumes "\<forall>n r. m n = Some r \<longrightarrow> r < length h" and "\<forall>r\<in>set nxt. r < length h"
    and "mergeItems m es h nxt = (h', res)"
  shows "length h \<le> length h' \<and> (\<forall>nxt'. res = Some nxt' \<longrightarrow> (\<forall>r\<in>set nxt'. r < length h'))"
  using assms
proof (induction m es h nxt rule: mergeItems.induct)
  case (1 m h nxt)
  then show ?case by auto
next
  case (2 m es h nxt)
  then show ?case by auto
next
  case (3 m obj es h nxt)
  show ?case
  proof (cases "nameRead obj")
    case Threw
    with "3.prems" show ?thesis by auto
  next
    case nm: (Returned nm)
    show ?thesis
    proof (cases "hostRead obj")
      case Threw
      with nm "3.prems" show ?thesis by auto
    next
      case hst: (Returned hst)
      show ?thesis
      proof (cases "downRead obj")
        case Threw
        with nm hst "3.prems" show ?thesis by auto
      next
        case d: (Returned d)
        let ?rh = "case m nm of Some r \<Rightarrow> (r, h) | None \<Rightarrow> (length h, h @ [newItem])"
        let ?h1 = "(snd ?rh)[fst ?rh := \<lparr>itName = nm, itHost = hst, itDown = (d = 1),
          itRtt = rttRead obj\<rparr>]"
        have len: "length h \<le> length ?h1" and r: "fst ?rh < length ?h1"
          using "3.prems"(1) by (auto split: option.splits)
        have eq: "mergeItems m es ?h1 (nxt @ [fst ?rh]) = (h', res)"
          using "3.prems"(3) nm hst d by (simp add: Let_def)
        have 1: "\<forall>n r. m n = Some r \<longrightarrow> r < length ?h1"
          using "3.prems"(1) len by fastforce
        have 2: "\<forall>r\<in>set (nxt @ [fst ?rh]). r < length ?h1"
          using "3.prems"(2) len r by fastforce
        from "3.IH" [OF nm hst d refl refl refl refl refl 1 2 eq] len
        show ?thesis
          by simp
      qed
    qed
  qed
qed

lemma viewerOk_read:
  assumes "viewerOk v"
  shows "viewerOk (readUdpNonBlocking ms pkt v)"
proof (cases pkt)
  case (RxObject jo)
  let ?v1 = "v\<lparr>lastUpdateTs := orDefault (tsRead jo) ms\<rparr>"
  have v1: "viewerOk ?v1"
    using assms by (simp add: viewerOk_def)
  show ?thesis
  proof (cases "itemsRead jo")
    case Threw
    with RxObject v1 show ?thesis by (simp add: readUdpNonBlocking_def)
  next
    case (Returned arr)
    show ?thesis
    proof (cases arr)
      case None
      with RxObject Returned v1 show ?thesis by (simp add: readUdpNonBlocking_def)
    next
      case (Some es)
      obtain h' res where m: "mergeItems (nameMap (heap v) (items v)) es (heap v) [] = (h', res)"
        by (cases "mergeItems (nameMap (heap v) (items v)) es (heap v) []")
      have "\<forall>n r. nameMap (heap v) (items v) n = Some r \<longrightarrow> r < length (heap v)"
        using nameMap_Some [of "heap v" "items v"] assms by (auto simp: viewerOk_def)
      from mergeItems_refs [OF this _ m]
      have len: "length (heap v) \<le> length h'"
        and refs: "\<forall>nxt'. res = Some nxt' \<longrightarrow> (\<forall>r\<in>set nxt'. r < length h')"
        by simp_all
      show ?thesis
      proof (cases res)
        case None
        with RxObject Returned Some m len assms show ?thesis
          by (fastforce simp: readUdpNonBlocking_def viewerOk_def)
      next
        case (Some nxt')
        with RxObject Returned \<open>arr = Some es\<close> m refs show ?thesis
          by (simp add: readUdpNonBlocking_def viewerOk_def)
      qed
    qed
  qed
qed (simp_all add: readUdpNonBlocking_def assms)

lemma viewerOk_initial: "viewerOk initialViewer"
  by (simp add: viewerOk_def initialViewer_def)

lemma docItems_single:
  assumes "telConnected e" and "needBytes e \<le> 1400" and "mallocOk e"
    and "N_TGT reg \<le> length (tgts reg)"
  shows "sendTelemetryUDP e reg
    = [(SubnetBroadcast, \<lparr>docTs = nowDoc e, docItems = map telemItem (activeTargets reg)\<rparr>)]"
  using assms by (simp add: sendTelemetryUDP_def activeTargets_def map_nth_upt_take)

subsection \<open>Evaluating the viewer examples\<close>

lemma boot_eval:
  "addDefaultTargets initialRegistry
     = \<lparr>tgts = [zabbixT, dns1T, dns2T] @ replicate 9 emptySlot, N_TGT = 3\<rparr>"
  by (simp add: addDefaultTargets_def initialRegistry_def MAX_TGT_def Let_def eval_nat_numeral
      zabbixT_def dns1T_def dns2T_def)

lemma dup_eval:
  "dupRegistry = \<lparr>tgts = [zabbixT, dns1T, dns2T, webA, webB] @ replicate 7 emptySlot, N_TGT = 5\<rparr>"
  unfolding dupRegistry_def boot_eval
  by (simp add: handleCommandUDP_def addCmd_def orDefault_def addTarget_def MAX_TGT_def Let_def
      eval_nat_numeral webA_def webB_def emptySlot_def)

lemma active_boot: "activeTargets (addDefaultTargets initialRegistry) = [zabbixT, dns1T, dns2T]"
  by (simp add: boot_eval activeTargets_def)

lemma active_dup: "activeTargets dupRegistry = [zabbixT, dns1T, dns2T, webA, webB]"
  by (simp add: dup_eval activeTargets_def)

lemma telemetryEnv_simps:
  "telConnected (telemetryEnv n)" "needBytes (telemetryEnv n) = n" "mallocOk (telemetryEnv n)"
  "nowDoc (telemetryEnv n) = 30000"
  by (simp_all add: telemetryEnv_def)

lemma send_boot:
  "sendTelemetryUDP (telemetryEnv 184) (addDefaultTargets initialRegistry)
     = [(SubnetBroadcast, \<lparr>docTs = 30000, docItems = map telemItem [zabbixT, dns1T, dns2T]\<rparr>)]"
  by (subst docItems_single) (simp_all add: telemetryEnv_simps active_boot, simp add: boot_eval)

lemma send_dup:
  "sendTelemetryUDP (telemetryEnv 286) dupRegistry
     = [(SubnetBroadcast,
         \<lparr>docTs = 30000, docItems = map telemItem [zabbixT, dns1T, dns2T, webA, webB]\<rparr>)]"
  by (subst docItems_single) (simp_all add: telemetryEnv_simps active_dup, simp add: dup_eval)

lemma telemetryOf_boot:
  "bootTelemetry = \<lparr>docTs = 30000, docItems = map telemItem [zabbixT, dns1T, dns2T]\<rparr>"
  by (simp add: bootTelemetry_def send_boot)

lemma telemetryOf_dup:
  "dupTelemetry = \<lparr>docTs = 30000, docItems = map telemItem [zabbixT, dns1T, dns2T, webA, webB]\<rparr>"
  by (simp add: dupTelemetry_def send_dup)

lemma names_simps:
  "name zabbixT = ''zabbix''" "name dns1T = ''DNS1''" "name dns2T = ''DNS2''"
  "name webA = ''web''" "name webB = ''web''"
  "host webA = ''10.0.0.1''" "host webB = ''10.0.0.2''"
  by (simp_all add: zabbixT_def dns1T_def dns2T_def webA_def webB_def)

lemma first_read_dup:
  "readUdpNonBlocking ms (received dupTelemetry) initialViewer
     = \<lparr>heap = map itemOf [zabbixT, dns1T, dns2T, webA, webB], items = [0, 1, 2, 3, 4],
        lastUpdateTs = 30000\<rparr>"
  by (simp add: telemetryOf_dup readUdpNonBlocking_def received_def initialViewer_def
      orDefault_def nameMap_def Let_def telemItem_def itemOf_def)

lemma second_read_dup:
  "readUdpNonBlocking ms (received dupTelemetry)
     \<lparr>heap = map itemOf [zabbixT, dns1T, dns2T, webA, webB], items = [0, 1, 2, 3, 4],
        lastUpdateTs = 30000\<rparr>
     = \<lparr>heap = map itemOf [zabbixT, dns1T, dns2T, webA, webB], items = [0, 1, 2, 4, 4],
        lastUpdateTs = 30000\<rparr>"
  by (simp add: telemetryOf_dup readUdpNonBlocking_def received_def
      orDefault_def nameMap_def Let_def telemItem_def itemOf_def names_simps)

section \<open>The claims\<close>

subsection \<open>Health checker\<close>

text \<open>
  C1, as stated, fails. Without Wi-Fi \<open>checkOne\<close> sends no probe, but it goes on with
  \<open>up = false\<close>: the check counts as a failure. Three checks without connectivity turn
  a fresh target down, and the first of them already changes \<open>consecFail\<close>.
\<close>

theorem offline_checks_turn_target_down:
  "\<not> wifiConnected offlineEnv
   \<and> \<not> isDown dbTarget
   \<and> isDown (fst (checkOne offlineEnv (checkOne offlineEnv (checkOne offlineEnv
        (dbTarget, initialAlarm)))))
   \<and> consecFail (fst (checkOne offlineEnv (dbTarget, initialAlarm))) \<noteq> consecFail dbTarget"
  by (simp add: three_offline)
    (simp add: checkOne_fail checkUp_offline dbTarget_def emptySlot_def FAIL_TH_def
      offlineEnv_simps word_le_nat_alt)

text \<open>
  C1, amended: a check made without network connectivity sends no probe and is a failed
  check. It increments \<open>consecFail\<close> (modulo 256), sets \<open>consecOk\<close> to 0 and \<open>lastAvgRtt\<close>
  to \<open>-1\<close>; a target that is up goes down when \<open>consecFail\<close> thereby reaches \<open>FAIL_TH\<close>,
  with \<open>lastChangeMs\<close> and \<open>downStartMs\<close> set to the time of the transition and the alarm
  activated; otherwise \<open>isDown\<close>, \<open>lastChangeMs\<close>, \<open>downStartMs\<close> and the alarm are
  unchanged.
\<close>

theorem offline_check_is_failure:
  assumes "\<not> wifiConnected env" and "checkOne env (t, a) = (t', a')"
  shows "consecFail t' = consecFail t + 1 \<and> consecOk t' = 0 \<and> lastAvgRtt t' = -1
    \<and> isDown t' = (isDown t \<or> FAIL_TH \<le> consecFail t + 1)
    \<and> (if \<not> isDown t \<and> isDown t'
        then lastChangeMs t' = nowTransition env \<and> downStartMs t' = nowTransition env
             \<and> a' = beepDown (nowAlarm env) a
        else lastChangeMs t' = lastChangeMs t \<and> downStartMs t' = downStartMs t \<and> a' = a)"
proof -
  from assms(1) have "\<not> checkUp env" by (simp add: checkUp_def)
  with assms(2) show ?thesis
    by (auto simp: checkOne_fail split: if_splits)
qed

theorem offline_check_is_failure_witness:
  "\<not> wifiConnected offlineEnv
   \<and> checkOne offlineEnv (dbTarget\<lparr>consecFail := 2\<rparr>, initialAlarm)
       = (dbTarget\<lparr>consecFail := 3, isDown := True, lastChangeMs := 15000, downStartMs := 15000\<rparr>,
          beepDown 15001 initialAlarm)
   \<and> consecFail (dbTarget\<lparr>consecFail := 3, isDown := True, lastChangeMs := 15000,
        downStartMs := 15000\<rparr>) = consecFail (dbTarget\<lparr>consecFail := 2\<rparr>) + 1
   \<and> isDown (dbTarget\<lparr>consecFail := 3, isDown := True, lastChangeMs := 15000,
        downStartMs := 15000\<rparr>)"
proof -
  have h1: "\<not> wifiConnected offlineEnv"
    by (simp add: offlineEnv_simps)
  have h2: "checkOne offlineEnv (dbTarget\<lparr>consecFail := 2\<rparr>, initialAlarm)
       = (dbTarget\<lparr>consecFail := 3, isDown := True, lastChangeMs := 15000, downStartMs := 15000\<rparr>,
          beepDown 15001 initialAlarm)"
    by (rule third_offline)
  from offline_check_is_failure [OF h1 h2] h1 h2 show ?thesis
    by simp
qed






text \<open>
  C4: in every state of the probe (after \<open>setup()\<close> and after every check, add, delete
  and set-interval), \<open>consecOk\<close> and \<open>consecFail\<close> of a target in use are not both
  non-zero. A check increments one of them and sets the other to zero, and an added
  target starts with both at zero.
\<close>

theorem counters_mutually_exclusive:
  assumes "reachable (reg, a)" and "i < N_TGT reg"
  shows "(consecOk (tgts reg ! i) = 0 \<or> consecFail (tgts reg ! i) = 0)
    \<and> (consecOk (fst (checkOne env (t, a2))) = consecOk t + 1
          \<and> consecFail (fst (checkOne env (t, a2))) = 0
        \<or> consecFail (fst (checkOne env (t, a2))) = consecFail t + 1
          \<and> consecOk (fst (checkOne env (t, a2))) = 0)
    \<and> (N_TGT reg < MAX_TGT \<longrightarrow>
          consecOk (tgts (snd (addTarget nm hst itvl reg)) ! N_TGT reg) = 0
          \<and> consecFail (tgts (snd (addTarget nm hst itvl reg)) ! N_TGT reg) = 0)"
proof -
  from assms have ok: "registryOk reg"
    using reachable_registryOk [of "(reg, a)"] by simp
  then have 1: "consecOk (tgts reg ! i) = 0 \<or> consecFail (tgts reg ! i) = 0"
    using assms(2) by (simp add: registryOk_def countersOk_def)
  have 2: "consecOk (fst (checkOne env (t, a2))) = consecOk t + 1
          \<and> consecFail (fst (checkOne env (t, a2))) = 0
        \<or> consecFail (fst (checkOne env (t, a2))) = consecFail t + 1
          \<and> consecOk (fst (checkOne env (t, a2))) = 0"
    by (cases "checkUp env") (simp_all add: checkOne_ok checkOne_fail)
  have 3: "N_TGT reg < MAX_TGT \<longrightarrow>
          consecOk (tgts (snd (addTarget nm hst itvl reg)) ! N_TGT reg) = 0
          \<and> consecFail (tgts (snd (addTarget nm hst itvl reg)) ! N_TGT reg) = 0"
    using ok by (simp add: addTarget_def registryOk_def Let_def)
  from 1 2 3 show ?thesis by blast
qed

theorem counters_mutually_exclusive_witness:
  "reachable twoFailures
   \<and> 0 < N_TGT (fst twoFailures)
   \<and> N_TGT (fst twoFailures) < MAX_TGT
   \<and> consecOk (tgts (fst twoFailures) ! 0) = 0
   \<and> consecFail (tgts (fst twoFailures) ! 0) = 2
   \<and> consecOk (tgts (snd (addTarget ''db'' ''10.0.0.2'' 6000 (fst twoFailures)))
        ! N_TGT (fst twoFailures)) = 0
   \<and> consecFail (tgts (snd (addTarget ''db'' ''10.0.0.2'' 6000 (fst twoFailures)))
        ! N_TGT (fst twoFailures)) = 0"
proof -
  have n: "N_TGT (fst bootState) = 3"
    by (simp add: bootState_def addDefaultTargets_def Let_def)
  have r: "reachable twoFailures"
    unfolding twoFailures_def
    by (intro reachable.check) (simp_all add: N_TGT_checkSlot n, simp add: bootState_def reachable.boot)
  have n2: "0 < N_TGT (fst twoFailures)" "N_TGT (fst twoFailures) < MAX_TGT"
    by (simp_all add: twoFailures_def N_TGT_checkSlot n MAX_TGT_def)
  have t: "tgts (fst twoFailures) ! 0
      = emptySlot\<lparr>name := ''zabbix'', host := ''192.168.11.200'', intervalMs := 5000,
          lastCheckMs := 10000, consecFail := 2\<rparr>"
    by (simp add: twoFailures_def checkSlot_def bootState_def addDefaultTargets_def
        initialRegistry_def MAX_TGT_def Let_def emptySlot_def checkOne_fail checkUp_offline
        FAIL_TH_def word_le_nat_alt)
  have "reachable (fst twoFailures, snd twoFailures)"
    using r by simp
  from counters_mutually_exclusive [OF this n2(1), of offlineEnv dbTarget initialAlarm
      "''db''" "''10.0.0.2''" 6000] r n2
  show ?thesis
    by (simp add: t emptySlot_def)
qed

subsection \<open>Target registry and command codec\<close>

lemma reachable_commands:
  "reachable (reg, a) \<Longrightarrow> reachable ((handleCommandUDP pkt ^^ n) reg, a)"
  by (induction n) (simp_all add: reachable.command)

lemma N_TGT_addCmd:
  "nm \<noteq> [] \<Longrightarrow> hst \<noteq> [] \<Longrightarrow>
   N_TGT (handleCommandUDP (addCmd nm hst) reg)
     = (if MAX_TGT \<le> N_TGT reg then N_TGT reg else N_TGT reg + 1)"
  by (simp add: handleCommandUDP_def addCmd_def orDefault_def addTarget_def Let_def)

lemma N_TGT_fullRegistry: "N_TGT fullRegistry = MAX_TGT"
  by (simp add: fullRegistry_def eval_nat_numeral N_TGT_addCmd MAX_TGT_def
      addDefaultTargets_def Let_def)

text \<open>
  C5: in every state of the probe the registry holds at most \<open>MAX_TGT = 12\<close> targets.
  On a registry that holds 12, \<open>addTarget\<close> returns false and the registry as it was,
  and so an \<open>add\<close> command leaves the registry as it was.
\<close>

theorem registry_capacity:
  assumes "reachable (reg, a)"
  shows "N_TGT reg \<le> MAX_TGT \<and> MAX_TGT = 12
    \<and> (N_TGT reg = MAX_TGT \<longrightarrow>
          addTarget nm hst itvl reg = (False, reg)
          \<and> (cmdMember doc = Some ''add'' \<longrightarrow> handleCommandUDP (CmdDoc doc) reg = reg))"
  using reachable_registryOk [OF assms]
  by (simp add: registryOk_def addTarget_def MAX_TGT_def handleCommandUDP_def orDefault_def
      Let_def)

theorem registry_capacity_witness:
  "reachable (fullRegistry, initialAlarm)
   \<and> N_TGT fullRegistry = MAX_TGT
   \<and> addTarget ''y'' ''10.0.0.10'' 6000 fullRegistry = (False, fullRegistry)
   \<and> cmdMember \<lparr>cmdMember = Some ''add'', nameMember = Some ''y'',
        hostMember = Some ''10.0.0.10'', itvlMember = Some 6000\<rparr> = Some ''add''
   \<and> handleCommandUDP (CmdDoc \<lparr>cmdMember = Some ''add'', nameMember = Some ''y'',
        hostMember = Some ''10.0.0.10'', itvlMember = Some 6000\<rparr>) fullRegistry = fullRegistry"
proof -
  have r: "reachable (fullRegistry, initialAlarm)"
    unfolding fullRegistry_def by (intro reachable_commands reachable.boot)
  from registry_capacity [OF r, of "''y''" "''10.0.0.10''" 6000
      "\<lparr>cmdMember = Some ''add'', nameMember = Some ''y'',
        hostMember = Some ''10.0.0.10'', itvlMember = Some 6000\<rparr>"] r N_TGT_fullRegistry
  show ?thesis by simp
qed






subsection \<open>Alarm scheduler\<close>

lemma alarmTick_idle: "\<not> alarmActive a \<Longrightarrow> alarmTick now btn a = a"
  by (simp add: alarmTick_def)

lemma alarmTick_running:
  "alarmActive a \<Longrightarrow> now - alarmStartMs a < ALARM_MAX_MS \<Longrightarrow>
   alarmActive (alarmTick now False a) \<and> alarmStartMs (alarmTick now False a) = alarmStartMs a"
  by (simp add: alarmTick_def Let_def not_le [symmetric])

lemma alarmTick_timeout:
  "alarmActive a \<Longrightarrow> ALARM_MAX_MS \<le> now - alarmStartMs a \<Longrightarrow>
   alarmTick now btn a = stopAlarm a"
  by (simp add: alarmTick_def)

lemma alarmTicks_append: "alarmTicks (xs @ ys) a = alarmTicks ys (alarmTicks xs a)"
  by (induction xs arbitrary: a) simp_all

lemma alarmTicks_running:
  "alarmActive a \<Longrightarrow> \<forall>now\<in>set nows. now - alarmStartMs a < ALARM_MAX_MS \<Longrightarrow>
   alarmActive (alarmTicks nows a) \<and> alarmStartMs (alarmTicks nows a) = alarmStartMs a"
proof (induction nows arbitrary: a)
  case Nil
  then show ?case by simp
next
  case (Cons now nows)
  then have step: "alarmActive (alarmTick now False a)
      \<and> alarmStartMs (alarmTick now False a) = alarmStartMs a"
    using alarmTick_running [of a now] by simp
  with Cons.prems have "\<forall>n\<in>set nows. n - alarmStartMs (alarmTick now False a) < ALARM_MAX_MS"
    by simp
  with Cons.IH [of "alarmTick now False a"] step show ?case by simp
qed

text \<open>
  C7: an active alarm whose ticks see no button pressed, and which no transition
  touches, stays active through every tick at which less than 60000 ms have passed
  since \<open>alarmStartMs\<close>, and the first tick at which 60000 ms or more have passed stops
  it, calling the speaker only to silence it. A tick of an alarm that is not active
  changes nothing, so it makes no call on the speaker.
\<close>

theorem alarm_auto_stop:
  assumes "alarmActive a"
    and "\<forall>now\<in>set nows. now - alarmStartMs a < ALARM_MAX_MS"
    and "ALARM_MAX_MS \<le> now' - alarmStartMs a"
  shows "ALARM_MAX_MS = 60000
    \<and> alarmActive (alarmTicks nows a)
    \<and> \<not> alarmActive (alarmTicks (nows @ [now']) a)
    \<and> speaker (alarmTicks (nows @ [now']) a) = speaker (alarmTicks nows a) @ [SpkStop]
    \<and> (\<not> alarmActive b \<longrightarrow> alarmTick later btn b = b)"
proof -
  from assms(1,2) have run: "alarmActive (alarmTicks nows a)"
    "alarmStartMs (alarmTicks nows a) = alarmStartMs a"
    using alarmTicks_running [of a nows] by simp_all
  with assms(3) have "alarmTicks (nows @ [now']) a = stopAlarm (alarmTicks nows a)"
    by (simp add: alarmTicks_append alarmTick_timeout)
  with run show ?thesis
    by (simp add: stopAlarm_def alarmTick_idle ALARM_MAX_MS_def)
qed

theorem alarm_auto_stop_witness:
  "alarmActive (beepDown 1000 initialAlarm)
   \<and> 1000 - alarmStartMs (beepDown 1000 initialAlarm) < ALARM_MAX_MS
   \<and> 1300 - alarmStartMs (beepDown 1000 initialAlarm) < ALARM_MAX_MS
   \<and> 60999 - alarmStartMs (beepDown 1000 initialAlarm) < ALARM_MAX_MS
   \<and> ALARM_MAX_MS \<le> 61000 - alarmStartMs (beepDown 1000 initialAlarm)
   \<and> alarmActive (alarmTicks [1000, 1300, 60999] (beepDown 1000 initialAlarm))
   \<and> \<not> alarmActive (alarmTicks ([1000, 1300, 60999] @ [61000]) (beepDown 1000 initialAlarm))
   \<and> \<not> alarmActive initialAlarm \<and> alarmTick 5 True initialAlarm = initialAlarm"
proof -
  have h1: "alarmActive (beepDown 1000 initialAlarm)"
    by (simp add: beepDown_def BUZZER_ENABLE_def)
  have h2: "\<forall>now\<in>set [1000, 1300, 60999].
      now - alarmStartMs (beepDown 1000 initialAlarm) < ALARM_MAX_MS"
    by (simp add: beepDown_def BUZZER_ENABLE_def ALARM_MAX_MS_def)
  have h3: "ALARM_MAX_MS \<le> 61000 - alarmStartMs (beepDown 1000 initialAlarm)"
    by (simp add: beepDown_def BUZZER_ENABLE_def ALARM_MAX_MS_def)
  have h4: "\<not> alarmActive initialAlarm"
    by (simp add: initialAlarm_def)
  from alarm_auto_stop [OF h1 h2 h3, of initialAlarm 5 True] h1 h2 h3 h4 show ?thesis
    by simp
qed

text \<open>
  C10: when a check turns a target down while the alarm is already active, the alarm
  is \<open>beepDown\<close> of the alarm: active, \<open>alarmStartMs\<close> the time of this transition,
  \<open>alarmNextMs = 0\<close> (so the next tick that does not stop the alarm beeps at once) and
  \<open>alarmStep = 0\<close>. The next tick without a button stops the alarm exactly when 60000 ms
  have passed since this transition, and otherwise sounds the first beep of the burst.
\<close>

theorem down_transition_restarts_alarm:
  assumes "alarmActive a" and "\<not> isDown t" and "checkOne env (t, a) = (t', a')" and "isDown t'"
  shows "a' = beepDown (nowAlarm env) a
    \<and> beepDown now0 a = a\<lparr>alarmActive := True, alarmStartMs := now0, alarmNextMs := 0, alarmStep := 0\<rparr>
    \<and> alarmActive a' \<and> alarmStartMs a' = nowAlarm env \<and> alarmNextMs a' = 0 \<and> alarmStep a' = 0
    \<and> alarmActive (alarmTick now False a') = (now - nowAlarm env < ALARM_MAX_MS)
    \<and> (now - nowAlarm env < ALARM_MAX_MS \<longrightarrow>
          alarmTick now False a' = a'\<lparr>speaker := speaker a @ [SpkSetVolume 255, SpkTone 650 180],
            alarmNextMs := now + 300, alarmStep := 1\<rparr>)"
proof -
  have a': "a' = beepDown (nowAlarm env) a"
  proof (cases "checkUp env")
    case True
    with assms show ?thesis by (auto simp: checkOne_ok split: if_splits)
  next
    case False
    with assms show ?thesis by (auto simp: checkOne_fail split: if_splits)
  qed
  have b: "beepDown n a = a\<lparr>alarmActive := True, alarmStartMs := n, alarmNextMs := 0, alarmStep := 0\<rparr>" for n
    by (simp add: beepDown_def BUZZER_ENABLE_def)
  show ?thesis
    unfolding a' b
    by (auto simp: alarmTick_def stopAlarm_def Let_def not_le)
qed

theorem down_transition_restarts_alarm_witness:
  "alarmActive ringingAlarm
   \<and> alarmStartMs ringingAlarm = 1000 \<and> alarmStep ringingAlarm = 2
   \<and> \<not> isDown (dbTarget\<lparr>consecFail := 2\<rparr>)
   \<and> checkOne offlineEnv (dbTarget\<lparr>consecFail := 2\<rparr>, ringingAlarm)
       = (dbTarget\<lparr>consecFail := 3, isDown := True, lastChangeMs := 15000, downStartMs := 15000\<rparr>,
          beepDown 15001 ringingAlarm)
   \<and> isDown (dbTarget\<lparr>consecFail := 3, isDown := True, lastChangeMs := 15000,
        downStartMs := 15000\<rparr>)
   \<and> alarmStartMs (beepDown 15001 ringingAlarm) = 15001
   \<and> alarmStep (beepDown 15001 ringingAlarm) = 0
   \<and> ALARM_MAX_MS \<le> 61000 - alarmStartMs ringingAlarm
   \<and> 61000 - nowAlarm offlineEnv < ALARM_MAX_MS
   \<and> alarmActive (alarmTick 61000 False (beepDown 15001 ringingAlarm))
   \<and> alarmStep (alarmTick 61000 False (beepDown 15001 ringingAlarm)) = 1"
proof -
  have h1: "alarmActive ringingAlarm"
    by (simp add: ringingAlarm_def)
  have h2: "\<not> isDown (dbTarget\<lparr>consecFail := 2\<rparr>)"
    by (simp add: dbTarget_def emptySlot_def)
  have h3: "checkOne offlineEnv (dbTarget\<lparr>consecFail := 2\<rparr>, ringingAlarm)
       = (dbTarget\<lparr>consecFail := 3, isDown := True, lastChangeMs := 15000, downStartMs := 15000\<rparr>,
          beepDown 15001 ringingAlarm)"
    by (rule third_offline)
  have h4: "isDown (dbTarget\<lparr>consecFail := 3, isDown := True, lastChangeMs := 15000,
        downStartMs := 15000\<rparr>)"
    by simp
  have h5: "61000 - nowAlarm offlineEnv < ALARM_MAX_MS"
    "ALARM_MAX_MS \<le> 61000 - alarmStartMs ringingAlarm"
    "alarmStartMs ringingAlarm = 1000" "alarmStep ringingAlarm = 2"
    by (simp_all add: offlineEnv_simps ALARM_MAX_MS_def ringingAlarm_def)
  note T = down_transition_restarts_alarm [OF h1 h2 h3 h4, of 15001 61000]
  from T have "alarmStartMs (beepDown 15001 ringingAlarm) = nowAlarm offlineEnv"
    by blast
  then have t1: "alarmStartMs (beepDown 15001 ringingAlarm) = 15001"
    by (simp only: offlineEnv_simps)
  from T have t2: "alarmStep (beepDown 15001 ringingAlarm) = 0"
    by blast
  from T h5(1) have t3: "alarmActive (alarmTick 61000 False (beepDown 15001 ringingAlarm))"
    by blast
  from T h5(1) have "alarmTick 61000 False (beepDown 15001 ringingAlarm)
      = (beepDown 15001 ringingAlarm)\<lparr>speaker := speaker ringingAlarm @ [SpkSetVolume 255, SpkTone 650 180],
            alarmNextMs := 61000 + 300, alarmStep := 1\<rparr>"
    by blast
  then have t4: "alarmStep (alarmTick 61000 False (beepDown 15001 ringingAlarm)) = 1"
    by simp
  from h1 h2 h3 h4 h5 t1 t2 t3 t4 show ?thesis
    by blast
qed

subsection \<open>Telemetry codec and viewer reconciler\<close>

lemma first_read_boot:
  "readUdpNonBlocking ms (received bootTelemetry) initialViewer
     = \<lparr>heap = map itemOf [zabbixT, dns1T, dns2T], items = [0, 1, 2], lastUpdateTs = 30000\<rparr>"
  by (simp add: telemetryOf_boot readUdpNonBlocking_def received_def initialViewer_def
      orDefault_def nameMap_def Let_def telemItem_def itemOf_def)

lemma reachable_dupRegistry: "reachable (dupRegistry, initialAlarm)"
  unfolding dupRegistry_def by (intro reachable.command reachable.boot)

text \<open>
  C8, as stated, fails. The registry does not keep names apart, and the viewer finds the
  object to overwrite by name, in the map of the items it displays. After two \<open>add\<close>
  commands with the name \<open>web\<close> the registry holds five targets; its telemetry fits one
  datagram. A viewer that starts empty displays the first such datagram as it is, and
  holds one object per entry. On the second, both entries named \<open>web\<close> find the same
  object: the display has five entries, of which the fourth and the fifth are that
  object, with the host of the fifth target.
\<close>

theorem duplicate_names_share_display_object:
  "reachable (dupRegistry, initialAlarm)
   \<and> telConnected (telemetryEnv 286) \<and> needBytes (telemetryEnv 286) \<le> 1400 \<and> mallocOk (telemetryEnv 286)
   \<and> sendTelemetryUDP (telemetryEnv 286) dupRegistry = [(SubnetBroadcast, dupTelemetry)]
   \<and> N_TGT dupRegistry = 5
   \<and> name (tgts dupRegistry ! 3) = ''web'' \<and> host (tgts dupRegistry ! 3) = ''10.0.0.1''
   \<and> length (displayed (readUdpNonBlocking 2 (received dupTelemetry)
        (readUdpNonBlocking 1 (received dupTelemetry) initialViewer))) = 5
   \<and> itName (displayed (readUdpNonBlocking 2 (received dupTelemetry)
        (readUdpNonBlocking 1 (received dupTelemetry) initialViewer)) ! 3)
       = Some ''web''
   \<and> itHost (displayed (readUdpNonBlocking 2 (received dupTelemetry)
        (readUdpNonBlocking 1 (received dupTelemetry) initialViewer)) ! 3)
       = Some ''10.0.0.2''"
proof -
  have s: "sendTelemetryUDP (telemetryEnv 286) dupRegistry = [(SubnetBroadcast, dupTelemetry)]"
    by (simp only: telemetryOf_dup send_dup)
  have t: "N_TGT dupRegistry = 5" "name (tgts dupRegistry ! 3) = ''web''"
    "host (tgts dupRegistry ! 3) = ''10.0.0.1''"
    by (simp_all add: dup_eval names_simps)
  have d: "displayed (readUdpNonBlocking 2 (received dupTelemetry)
        (readUdpNonBlocking 1 (received dupTelemetry) initialViewer))
      = map itemOf [zabbixT, dns1T, dns2T, webB, webB]"
    by (simp only: first_read_dup second_read_dup) (simp add: displayed_def)
  show ?thesis
    unfolding d using s t reachable_dupRegistry
    by (simp add: telemetryEnv_simps itemOf_def names_simps)
qed

text \<open>
  C8, amended: for every registry the probe can hold whose telemetry is sent as a single
  datagram, and whose target names are pairwise distinct (or are none of them displayed
  by the viewer yet), reading that datagram leaves the viewer with exactly \<open>N_TGT\<close>
  displayed entries, the \<open>i\<close>-th with the name, host, down flag and rtt of the \<open>i\<close>-th
  target. The JSON text is taken to be written and read faithfully (\<open>received\<close>);
  \<open>viewerOk\<close> holds of every state of the viewer (\<open>viewerOk_initial\<close>, \<open>viewerOk_read\<close>).
\<close>

theorem telemetry_round_trip:
  assumes "reachable (reg, a)" and "telConnected e" and "needBytes e \<le> 1400" and "mallocOk e"
    and "viewerOk v"
    and "distinct (map name (activeTargets reg))
         \<or> (\<forall>t\<in>set (activeTargets reg). Some (name t) \<notin> set (map itName (displayed v)))"
  shows "length (sendTelemetryUDP e reg) = 1
    \<and> displayed (readUdpNonBlocking ms (received (snd (hd (sendTelemetryUDP e reg)))) v)
        = map itemOf (activeTargets reg)
    \<and> length (activeTargets reg) = N_TGT reg"
proof -
  from assms(1) have ok: "registryOk reg"
    using reachable_registryOk [of "(reg, a)"] by simp
  then have n: "N_TGT reg \<le> length (tgts reg)"
    by (simp add: registryOk_def)
  let ?doc = "\<lparr>docTs = nowDoc e, docItems = map telemItem (activeTargets reg)\<rparr>"
  have s: "sendTelemetryUDP e reg = [(SubnetBroadcast, ?doc)]"
    using assms(2-4) n by (rule docItems_single)
  let ?m = "nameMap (heap v) (items v)"
  have names: "map itemName (docItems ?doc) = map name (activeTargets reg)"
    by (simp add: telemItem_def comp_def)
  have "noAlias ?m (map name (activeTargets reg))"
    using assms(6)
  proof
    assume "distinct (map name (activeTargets reg))"
    then show ?thesis by (rule noAlias_distinct)
  next
    assume fresh: "\<forall>t\<in>set (activeTargets reg). Some (name t) \<notin> set (map itName (displayed v))"
    have "?m (Some n) = None" if "n \<in> set (map name (activeTargets reg))" for n
    proof (rule ccontr)
      assume "?m (Some n) \<noteq> None"
      then obtain r where "?m (Some n) = Some r" by auto
      then have "r \<in> set (items v)" "itName (heap v ! r) = Some n"
        using nameMap_Some by auto
      then have "Some n \<in> set (map itName (displayed v))"
        by (force simp: displayed_def)
      with fresh that show False by auto
    qed
    then show ?thesis by (simp add: noAlias_fresh)
  qed
  then have "noAlias ?m (map itemName (docItems ?doc))"
    by (simp only: names)
  from read_received [OF assms(5) this, of ms]
  have "displayed (readUdpNonBlocking ms (received ?doc) v) = map itemOf (activeTargets reg)"
    by (simp add: shownOf_telemItem comp_def)
  with s n show ?thesis
    by (simp add: activeTargets_def)
qed


theorem telemetry_round_trip_witness:
  "reachable (addDefaultTargets initialRegistry, initialAlarm)
   \<and> telConnected (telemetryEnv 184) \<and> needBytes (telemetryEnv 184) \<le> 1400 \<and> mallocOk (telemetryEnv 184)
   \<and> viewerOk (readUdpNonBlocking 1 (received bootTelemetry)
        initialViewer)
   \<and> distinct (map name (activeTargets (addDefaultTargets initialRegistry)))
   \<and> length (activeTargets (addDefaultTargets initialRegistry)) = 3
   \<and> displayed (readUdpNonBlocking 2
        (received (snd (hd (sendTelemetryUDP (telemetryEnv 184) (addDefaultTargets initialRegistry)))))
        (readUdpNonBlocking 1 (received bootTelemetry)
           initialViewer))
       = map itemOf (activeTargets (addDefaultTargets initialRegistry))"
proof -
  let ?v1 = "readUdpNonBlocking 1 (received bootTelemetry)
        initialViewer"
  have ok: "viewerOk ?v1"
    by (rule viewerOk_read) (rule viewerOk_initial)
  have dis: "distinct (map name (activeTargets (addDefaultTargets initialRegistry)))"
    by (simp add: active_boot names_simps)
  then have h: "distinct (map name (activeTargets (addDefaultTargets initialRegistry)))
      \<or> (\<forall>t\<in>set (activeTargets (addDefaultTargets initialRegistry)).
            Some (name t) \<notin> set (map itName (displayed ?v1)))"
    by (rule disjI1)
  have len: "length (activeTargets (addDefaultTargets initialRegistry)) = 3"
    by (simp add: active_boot)
  have tc: "telConnected (telemetryEnv 184)" and mo: "mallocOk (telemetryEnv 184)"
    and nb: "needBytes (telemetryEnv 184) \<le> 1400"
    by (simp_all add: telemetryEnv_simps)
  from telemetry_round_trip [OF reachable.boot tc nb mo ok h, of 2]
    reachable.boot tc nb mo ok dis len
  show ?thesis
    by blast
qed

lemma unparsable_datagram_ignored:
  "pkt = RxNothing \<or> pkt = RxUnparsable \<or> pkt = RxNull \<Longrightarrow> readUdpNonBlocking ms pkt v = v"
  by (auto simp: readUdpNonBlocking_def)

text \<open>
  C9 holds for a datagram that does not parse (\<open>unparsable_datagram_ignored\<close>), and fails
  for one that parses as an object and whose items cannot all be read:
  \<open>lastUpdateTs\<close> is assigned before \<open>items\<close> is looked at, and the loop writes the
  entries it can read into the objects on display before the exception of a later entry
  abandons the new list. Here the viewer displays the three default targets; the
  datagram has \<open>ts = 77777\<close>, a readable item named \<open>DNS1\<close> (host \<open>10.9.9.9\<close>, down)
  and a second element that is not an object. The list \<open>items\<close> is the same afterwards,
  but the timestamp, and the host and the down flag displayed for \<open>DNS1\<close>, are those of
  the discarded datagram.
\<close>

theorem broken_datagram_changes_display:
  "lastUpdateTs (readUdpNonBlocking 1 (received bootTelemetry)
        initialViewer) = 30000
   \<and> displayed (readUdpNonBlocking 1 (received bootTelemetry)
        initialViewer) = map itemOf [zabbixT, dns1T, dns2T]
   \<and> items (readUdpNonBlocking 5 brokenPacket
        (readUdpNonBlocking 1 (received bootTelemetry)
           initialViewer)) = [0, 1, 2]
   \<and> lastUpdateTs (readUdpNonBlocking 5 brokenPacket
        (readUdpNonBlocking 1 (received bootTelemetry)
           initialViewer)) = 77777
   \<and> displayed (readUdpNonBlocking 5 brokenPacket
        (readUdpNonBlocking 1 (received bootTelemetry)
           initialViewer))
       = [itemOf zabbixT,
          \<lparr>itName = Some ''DNS1'', itHost = Some ''10.9.9.9'', itDown = True, itRtt = -1\<rparr>,
          itemOf dns2T]
   \<and> itemOf dns1T
       = \<lparr>itName = Some ''DNS1'', itHost = Some ''8.8.8.8'', itDown = False, itRtt = -1\<rparr>"
proof -
  have b: "readUdpNonBlocking 5 brokenPacket
      \<lparr>heap = map itemOf [zabbixT, dns1T, dns2T], items = [0, 1, 2], lastUpdateTs = 30000\<rparr>
    = \<lparr>heap = [itemOf zabbixT,
          \<lparr>itName = Some ''DNS1'', itHost = Some ''10.9.9.9'', itDown = True, itRtt = -1\<rparr>,
          itemOf dns2T], items = [0, 1, 2], lastUpdateTs = 77777\<rparr>"
    by (simp add: readUdpNonBlocking_def brokenPacket_def orDefault_def nameMap_def Let_def
        itemOf_def names_simps)
  show ?thesis
    unfolding first_read_boot b
    by (simp add: displayed_def) (simp add: itemOf_def dns1T_def emptySlot_def)
qed


end
